theory Spec2Isabelle
  imports Main "HOL-Library.Sublist"
begin

section \<open>Core node model (\<open>@sylphlab/ast-core\<close>)\<close>

text \<open>
  \<^verbatim>\<open>interface Position { startOffset: number; endOffset: number }\<close>
  \<^verbatim>\<open>interface CstNode { type: string; text: string; position: Position; children?: CstNode[] }\<close>

  The optional field \<open>children\<close> is an \<open>option\<close>: \<open>None\<close> is \<open>undefined\<close>, \<open>Some []\<close> is a
  present but empty array. Offsets are JavaScript numbers used as indices, modelled as \<open>int\<close>.
  The field \<open>text\<close> is the selector \<open>node_text\<close> (\<open>text\<close> is a command of the theory language).
\<close>

record Position =
  startOffset :: int
  endOffset :: int

datatype CstNode =
  CstNode (type: string) (node_text: string) (position: Position) (children: "CstNode list option")

lemma children_list_size [termination_simp]:
  "children node = Some cs \<Longrightarrow> size_list size cs < size node"
  by (cases node) auto

lemma children_size [termination_simp]:
  "children node = Some cs \<Longrightarrow> child \<in> set cs \<Longrightarrow> size child < size node"
proof -
  assume cs: "children node = Some cs" and mem: "child \<in> set cs"
  from mem have "size child \<le> size_list size cs"
    by (rule size_list_estimation') simp
  also from cs have "\<dots> < size node"
    by (rule children_list_size)
  finally show ?thesis .
qed

text \<open>
  \<open>String.prototype.substring(indexStart, indexEnd)\<close> on integer arguments: each index is
  clamped to \<open>0 .. length\<close>, and the two are swapped when the first is the larger.
\<close>

definition substring :: "string \<Rightarrow> int \<Rightarrow> int \<Rightarrow> string" where
  "substring s indexStart indexEnd =
     (let len = int (length s);
          a = min (max indexStart 0) len;
          b = min (max indexEnd 0) len;
          lower = min a b;
          upper = max a b
      in take (nat (upper - lower)) (drop (nat lower) s))"

text \<open>
  \<^verbatim>\<open>function getSourceText(node, source) {
    return source.substring(node.position.startOffset, node.position.endOffset);
  }\<close>
\<close>

definition getSourceText :: "CstNode \<Rightarrow> string \<Rightarrow> string" where
  "getSourceText node source =
     substring source (startOffset (position node)) (endOffset (position node))"

section \<open>Traversal utilities (\<open>docs/api/index.md\<close>)\<close>

text \<open>
  \<^verbatim>\<open>function traverse(node, callback) {
    callback(node);
    if (node.children) { for (const child of node.children) traverse(child, callback); }
  }\<close>

  The callback returns nothing and acts only through its effects, so it is a state
  transformer \<open>CstNode \<Rightarrow> 's \<Rightarrow> 's\<close> and \<open>traverse\<close> threads the state through the calls in
  the order the source makes them; it does not change the tree, which is immutable once
  built. An array is truthy even when empty, so the test \<open>if (node.children)\<close> is the
  test for \<open>Some\<close>.
\<close>

fun traverse :: "CstNode \<Rightarrow> (CstNode \<Rightarrow> 's \<Rightarrow> 's) \<Rightarrow> 's \<Rightarrow> 's" where
  "traverse node callback s =
     (let s1 = callback node s
      in case children node of
           None \<Rightarrow> s1
         | Some cs \<Rightarrow> fold (\<lambda>child. traverse child callback) cs s1)"

declare traverse.simps [simp del]

text \<open>
  \<^verbatim>\<open>function findNodesByType(root, type) {
    const results = [];
    traverse(root, (node) => { if (node.type === type) results.push(node); });
    return results;
  }\<close>
\<close>

definition findNodesByType :: "CstNode \<Rightarrow> string \<Rightarrow> CstNode list" where
  "findNodesByType root ty =
     traverse root (\<lambda>node results. if type node = ty then results @ [node] else results) []"

text \<open>
  \<^verbatim>\<open>function findFirst(root, predicate) {
    if (predicate(root)) return root;
    if (root.children) {
      for (const child of root.children) {
        const found = findFirst(child, predicate);
        if (found) return found;
      }
    }
    return null;
  }\<close>

  The predicate is a callback too: it takes and returns the state, so that the calls
  the search makes can be observed. \<open>findFirst_loop\<close> is the \<open>for\<close> loop over the children.
\<close>

fun findFirst ::
    "CstNode \<Rightarrow> (CstNode \<Rightarrow> 's \<Rightarrow> bool \<times> 's) \<Rightarrow> 's \<Rightarrow> CstNode option \<times> 's"
  and findFirst_loop ::
    "CstNode list \<Rightarrow> (CstNode \<Rightarrow> 's \<Rightarrow> bool \<times> 's) \<Rightarrow> 's \<Rightarrow> CstNode option \<times> 's"
where
  "findFirst root predicate s =
     (case predicate root s of
        (True, s1) \<Rightarrow> (Some root, s1)
      | (False, s1) \<Rightarrow>
          (case children root of
             None \<Rightarrow> (None, s1)
           | Some cs \<Rightarrow> findFirst_loop cs predicate s1))"
| "findFirst_loop [] predicate s = (None, s)"
| "findFirst_loop (child # rest) predicate s =
     (case findFirst child predicate s of
        (Some found, s1) \<Rightarrow> (Some found, s1)
      | (None, s1) \<Rightarrow> findFirst_loop rest predicate s1)"

declare findFirst.simps [simp del]

text \<open>
  \<^verbatim>\<open>function filterNodes(node, predicate) {
    if (!predicate(node)) return null;
    if (!node.children) return node;
    const filteredChildren = node.children
      .map(child => filterNodes(child, predicate))
      .filter((child) => child !== null);
    return { ...node, children: filteredChildren };
  }\<close>
\<close>

fun filterNodes :: "CstNode \<Rightarrow> (CstNode \<Rightarrow> bool) \<Rightarrow> CstNode option" where
  "filterNodes node predicate =
     (if \<not> predicate node then None
      else case children node of
             None \<Rightarrow> Some node
           | Some cs \<Rightarrow>
               (let filteredChildren =
                      map the (filter (\<lambda>child. child \<noteq> None)
                        (map (\<lambda>child. filterNodes child predicate) cs))
                in Some (CstNode (type node) (node_text node) (position node)
                           (Some filteredChildren))))"

declare filterNodes.simps [simp del]

section \<open>The tutorial parser (\<open>docs/guide\<close>, adding a language)\<close>

text \<open>
  The fields of an ANTLR token that the visitor reads. \<open>text\<close> may be \<open>undefined\<close>.
  \<open>ParserRuleContext\<close> is the part of a rule context \<open>getLocation\<close> reads: the start
  token, and the stop token, which may be \<open>undefined\<close>.
\<close>

record AntlrToken =
  token_line :: int
  charPositionInLine :: int
  startIndex :: int
  stopIndex :: int
  token_text :: "string option"

record ParserRuleContext =
  start :: AntlrToken
  stop :: "AntlrToken option"

text \<open>
  \<^verbatim>\<open>interface Position { line: number; column: number; offset?: number }\<close>
  \<^verbatim>\<open>interface SourceLocation { start: Position; end: Position; source?: string }\<close>

  This \<open>Position\<close> is the one of the \<open>AstNode\<close> types, here \<open>AstPosition\<close>.
\<close>

record AstPosition =
  line :: int
  column :: int
  offset :: int

record SourceLocation =
  loc_start :: AstPosition
  loc_end :: AstPosition

text \<open>
  \<^verbatim>\<open>private getLocation(ctx: ParserRuleContext): SourceLocation {
    const start = ctx.start;
    const stop = ctx.stop || start;
    return {
      start: { line: start.line, column: start.charPositionInLine, offset: start.startIndex },
      end: { line: stop.line,
             column: stop.charPositionInLine + (stop.text?.length || 0),
             offset: stop.stopIndex + 1 }
    };
  }\<close>

  \<open>stop_or_start\<close> is \<open>ctx.stop || start\<close> and \<open>text_length\<close> is \<open>stop.text?.length || 0\<close>.
\<close>

definition stop_or_start :: "ParserRuleContext \<Rightarrow> AntlrToken" where
  "stop_or_start ctx = (case stop ctx of None \<Rightarrow> start ctx | Some t \<Rightarrow> t)"

definition text_length :: "AntlrToken \<Rightarrow> int" where
  "text_length t = (case token_text t of None \<Rightarrow> 0 | Some s \<Rightarrow> int (length s))"

definition getLocation :: "ParserRuleContext \<Rightarrow> SourceLocation" where
  "getLocation ctx =
     (let start = start ctx;
          stop = stop_or_start ctx
      in \<lparr>loc_start =
            \<lparr>line = token_line start,
             column = charPositionInLine start,
             offset = startIndex start\<rparr>,
          loc_end =
            \<lparr>line = token_line stop,
             column = charPositionInLine stop + text_length stop,
             offset = stopIndex stop + 1\<rparr>\<rparr>)"

text \<open>
  The parse tree the external parser hands to the visitor, one constructor for each kind
  of context the visitor distinguishes, holding what the accessors the visitor calls
  return: \<open>ctx.statement()\<close> for a \<open>File_inputContext\<close>, \<open>ctx.simple_stmt()\<close> and
  \<open>ctx.compound_stmt()\<close> (each may be absent) for a \<open>StatementContext\<close>,
  \<open>ctx.small_stmt()\<close> for a \<open>Simple_stmtContext\<close>, \<open>ctx.testlist_star_expr()\<close> for an
  \<open>Expr_stmtContext\<close>. \<open>OtherContext\<close> is a rule context for which the class has no visit
  method, with its children; \<open>TerminalNode\<close> is a token of the tree.
\<close>

datatype ParseTree =
    File_inputContext ParserRuleContext "ParseTree list"
  | StatementContext "ParseTree option" "ParseTree option"
  | Simple_stmtContext ParserRuleContext "ParseTree list"
  | Expr_stmtContext ParserRuleContext ParseTree
  | OtherContext "ParseTree list"
  | TerminalNode AntlrToken

text \<open>
  The nodes the visitor builds: \<^verbatim>\<open>{ type: 'Unknown' }\<close>,
  \<^verbatim>\<open>{ type: 'Program', body, loc }\<close>, \<^verbatim>\<open>{ type: 'BlockStatement', body, loc }\<close> and
  \<^verbatim>\<open>{ type: 'ExpressionStatement', expression, loc }\<close>. A visit may return \<open>null\<close>
  (\<open>visitStatement\<close> does), so a visit returns an \<open>option\<close>, and so do the places that store
  a result without filtering it.
\<close>

datatype AstNode =
    Unknown
  | Program "AstNode list" SourceLocation
  | BlockStatement "AstNode option list" SourceLocation
  | ExpressionStatement "AstNode option" SourceLocation

text \<open>
  \<^verbatim>\<open>defaultResult(): AstNode { return { type: 'Unknown' }; }

  visitFile_input(ctx): Program {
    const statements = ctx.statement().map(stmt => this.visit(stmt) as Statement).filter(Boolean);
    return { type: 'Program', body: statements, loc: this.getLocation(ctx) };
  }
  visitStatement(ctx): Statement | null {
    if (ctx.simple_stmt()) { return this.visit(ctx.simple_stmt()) as Statement; }
    if (ctx.compound_stmt()) { return this.visit(ctx.compound_stmt()) as Statement; }
    return null;
  }
  visitSimple_stmt(ctx): Statement {
    const small_stmts = ctx.small_stmt();
    if (small_stmts.length === 1) { return this.visit(small_stmts[0]) as Statement; }
    return { type: 'BlockStatement',
             body: small_stmts.map(stmt => this.visit(stmt) as Statement),
             loc: this.getLocation(ctx) };
  }
  visitExpr_stmt(ctx): Statement {
    return { type: 'ExpressionStatement',
             expression: this.visit(ctx.testlist_star_expr()),
             loc: this.getLocation(ctx) };
  }\<close>

  \<open>this.visit(tree)\<close> dispatches on the kind of context to the method above. For a context
  without a method, and for a token, the class inherits the behaviour of ANTLR's
  \<open>AbstractParseTreeVisitor\<close>: \<open>visitChildren\<close> starts from \<open>defaultResult()\<close>, visits the
  children in order and keeps the result of the latest one; \<open>visitTerminal\<close> returns
  \<open>defaultResult()\<close>. The test \<open>small_stmts.length === 1\<close> is the pattern \<open>[single]\<close>.
\<close>

fun visit :: "ParseTree \<Rightarrow> AstNode option" where
  "visit (File_inputContext ctx statement) =
     (let statements = map the (filter (\<lambda>r. r \<noteq> None) (map visit statement))
      in Some (Program statements (getLocation ctx)))"
| "visit (StatementContext simple_stmt compound_stmt) =
     (case simple_stmt of
        Some c \<Rightarrow> visit c
      | None \<Rightarrow> (case compound_stmt of Some c \<Rightarrow> visit c | None \<Rightarrow> None))"
| "visit (Simple_stmtContext ctx small_stmts) =
     (case small_stmts of
        [single] \<Rightarrow> visit single
      | _ \<Rightarrow> Some (BlockStatement (map visit small_stmts) (getLocation ctx)))"
| "visit (Expr_stmtContext ctx testlist_star_expr) =
     Some (ExpressionStatement (visit testlist_star_expr) (getLocation ctx))"
| "visit (OtherContext cs) = fold (\<lambda>c result. visit c) cs (Some Unknown)"
| "visit (TerminalNode t) = Some Unknown"


section \<open>The visitor of the JavaScript package (\<open>docs/development/index.md\<close>)\<close>

text \<open>
  \<^verbatim>\<open>export class AstBuilderVisitor extends ECMAScriptVisitorBase {
    visitVariableDeclaration(ctx: VariableDeclarationContext): CstNode {
      return {
        type: 'VariableDeclaration',
        text: ctx.text,
        position: this.getPosition(ctx),
        children: [
          // ... child nodes
        ]
      };
    }
  }\<close>

  The parse tree of the JavaScript parser: a terminal with its token, or a rule context
  with its name, its start and stop tokens and its children. \<open>ctx.text\<close> is ANTLR's
  accessor: the text of a terminal is the text of its token, the text of a rule context is
  the texts of its children, one after the other. \<open>getPosition\<close> and the child nodes are
  not shown in the documentation: they are parameters of the method.
\<close>

datatype RuleContext =
    Terminal AntlrToken
  | Rule string ParserRuleContext "RuleContext list"

fun ctx_text :: "RuleContext \<Rightarrow> string" where
  "ctx_text (Terminal t) = (case token_text t of None \<Rightarrow> [] | Some s \<Rightarrow> s)"
| "ctx_text (Rule rule ctx cs) = concat (map ctx_text cs)"

definition visitVariableDeclaration ::
    "(RuleContext \<Rightarrow> Position) \<Rightarrow> (RuleContext \<Rightarrow> CstNode list) \<Rightarrow> RuleContext \<Rightarrow> CstNode" where
  "visitVariableDeclaration getPosition child_nodes ctx =
     CstNode ''VariableDeclaration'' (ctx_text ctx) (getPosition ctx) (Some (child_nodes ctx))"

section \<open>Notions the properties are stated with\<close>

subsection \<open>Document order\<close>

text \<open>
  The manual enumeration the traversal laws refer to: a node, then the enumerations of
  its children from left to right.
\<close>

fun preorder :: "CstNode \<Rightarrow> CstNode list" where
  "preorder node =
     node # (case children node of None \<Rightarrow> [] | Some cs \<Rightarrow> concat (map preorder cs))"

declare preorder.simps [simp del]

text \<open>
  A predicate that records each node it is asked about, and the part of a sequence a
  short-circuiting search looks at: everything before the first match, and the match.
\<close>

definition observed :: "(CstNode \<Rightarrow> bool) \<Rightarrow> CstNode \<Rightarrow> CstNode list \<Rightarrow> bool \<times> CstNode list" where
  "observed p node calls = (p node, calls @ [node])"

definition upto_first :: "('a \<Rightarrow> bool) \<Rightarrow> 'a list \<Rightarrow> 'a list" where
  "upto_first p xs =
     takeWhile (\<lambda>x. \<not> p x) xs @ (case find p xs of None \<Rightarrow> [] | Some m \<Rightarrow> [m])"

subsection \<open>Trees of the tutorial parser\<close>

text \<open>
  The location of a node, when it has one; every node of a tree; every rule context of a
  parse tree that carries start and stop tokens.
\<close>

fun ast_loc :: "AstNode \<Rightarrow> SourceLocation option" where
  "ast_loc Unknown = None"
| "ast_loc (Program body l) = Some l"
| "ast_loc (BlockStatement body l) = Some l"
| "ast_loc (ExpressionStatement expression l) = Some l"

fun ast_nodes :: "AstNode \<Rightarrow> AstNode list" where
  "ast_nodes Unknown = [Unknown]"
| "ast_nodes (Program body l) = Program body l # concat (map ast_nodes body)"
| "ast_nodes (BlockStatement body l) =
     BlockStatement body l #
       concat (map (\<lambda>r. case r of None \<Rightarrow> [] | Some c \<Rightarrow> ast_nodes c) body)"
| "ast_nodes (ExpressionStatement expression l) =
     ExpressionStatement expression l #
       (case expression of None \<Rightarrow> [] | Some e \<Rightarrow> ast_nodes e)"

fun rule_contexts :: "ParseTree \<Rightarrow> ParserRuleContext list" where
  "rule_contexts (File_inputContext ctx statement) = ctx # concat (map rule_contexts statement)"
| "rule_contexts (StatementContext simple_stmt compound_stmt) =
     (case simple_stmt of None \<Rightarrow> [] | Some c \<Rightarrow> rule_contexts c) @
     (case compound_stmt of None \<Rightarrow> [] | Some c \<Rightarrow> rule_contexts c)"
| "rule_contexts (Simple_stmtContext ctx small_stmts) =
     ctx # concat (map rule_contexts small_stmts)"
| "rule_contexts (Expr_stmtContext ctx testlist_star_expr) =
     ctx # rule_contexts testlist_star_expr"
| "rule_contexts (OtherContext cs) = concat (map rule_contexts cs)"
| "rule_contexts (TerminalNode t) = []"

definition located_from :: "ParserRuleContext list \<Rightarrow> AstNode \<Rightarrow> bool" where
  "located_from ctxs n =
     (case ast_loc n of None \<Rightarrow> True | Some l \<Rightarrow> l \<in> set (map getLocation ctxs))"

text \<open>Tokens on one line, for the examples: a token with its text at an index, and the end of input.\<close>

definition token_at :: "int \<Rightarrow> string \<Rightarrow> AntlrToken" where
  "token_at n s = \<lparr>token_line = 1, charPositionInLine = n, startIndex = n,
                   stopIndex = n + int (length s) - 1, token_text = Some s\<rparr>"




text \<open>
  The children of a node: the statements of a \<open>Program\<close>, the statements of a
  \<open>BlockStatement\<close> that are not \<open>null\<close>, the expression of an \<open>ExpressionStatement\<close>. The
  span of a location is its start offset and its end offset; the spans of the children
  of a node are those of the children that have a location, in order.
\<close>

fun ast_children :: "AstNode \<Rightarrow> AstNode list" where
  "ast_children Unknown = []"
| "ast_children (Program body l) = body"
| "ast_children (BlockStatement body l) = map the (filter (\<lambda>r. r \<noteq> None) body)"
| "ast_children (ExpressionStatement expression l) =
     (case expression of None \<Rightarrow> [] | Some e \<Rightarrow> [e])"

definition loc_span :: "SourceLocation \<Rightarrow> int \<times> int" where
  "loc_span l = (offset (loc_start l), offset (loc_end l))"

definition node_span :: "AstNode \<Rightarrow> (int \<times> int) list" where
  "node_span n = (case ast_loc n of None \<Rightarrow> [] | Some l \<Rightarrow> [loc_span l])"

definition child_spans :: "AstNode \<Rightarrow> (int \<times> int) list" where
  "child_spans n = concat (map node_span (ast_children n))"

definition inside :: "int \<times> int \<Rightarrow> int \<times> int \<Rightarrow> bool" where
  "inside outer inner = (fst outer \<le> fst inner \<and> snd inner \<le> snd outer)"

definition before :: "int \<times> int \<Rightarrow> int \<times> int \<Rightarrow> bool" where
  "before earlier later = (snd earlier \<le> fst later)"

text \<open>
  The parse trees ANTLR builds are nested and ordered: the tokens of a rule context lie
  between the first and the last token of every rule context above it, and the tokens of
  a child precede the tokens of the children after it. \<open>nested\<close> says so for the contexts
  the visitor takes locations from: below a file or a simple statement, every span lies
  inside the span of that context, and every span below one child ends before any span
  below a later child starts; below an expression statement, every span lies inside its
  span.
\<close>

definition spans_of :: "ParseTree \<Rightarrow> (int \<times> int) list" where
  "spans_of t = map (\<lambda>ctx. loc_span (getLocation ctx)) (rule_contexts t)"

definition all_before :: "ParseTree \<Rightarrow> ParseTree \<Rightarrow> bool" where
  "all_before t u = list_all (\<lambda>x. list_all (before x) (spans_of u)) (spans_of t)"

fun nested :: "ParseTree \<Rightarrow> bool" where
  "nested (File_inputContext ctx statement) =
     (list_all (\<lambda>s. list_all (inside (loc_span (getLocation ctx))) (spans_of s)) statement \<and>
      sorted_wrt all_before statement \<and>
      list_all nested statement)"
| "nested (StatementContext simple_stmt compound_stmt) =
     ((case simple_stmt of None \<Rightarrow> True | Some c \<Rightarrow> nested c) \<and>
      (case compound_stmt of None \<Rightarrow> True | Some c \<Rightarrow> nested c))"
| "nested (Simple_stmtContext ctx small_stmts) =
     (list_all (\<lambda>s. list_all (inside (loc_span (getLocation ctx))) (spans_of s)) small_stmts \<and>
      sorted_wrt all_before small_stmts \<and>
      list_all nested small_stmts)"
| "nested (Expr_stmtContext ctx testlist_star_expr) =
     (list_all (inside (loc_span (getLocation ctx))) (spans_of testlist_star_expr) \<and>
      nested testlist_star_expr)"
| "nested (OtherContext cs) = list_all nested cs"
| "nested (TerminalNode t) = True"

text \<open>
  The span of the node a visit returns, when it returns a node with a location; and the
  agreement of one node's span with the spans of its children.
\<close>

definition result_span :: "ParseTree \<Rightarrow> (int \<times> int) list" where
  "result_span t = (case visit t of None \<Rightarrow> [] | Some a \<Rightarrow> node_span a)"

definition spans_agree :: "AstNode \<Rightarrow> bool" where
  "spans_agree n =
     (case ast_loc n of
        None \<Rightarrow> True
      | Some l \<Rightarrow> list_all (inside (loc_span l)) (child_spans n) \<and>
                  sorted_wrt before (child_spans n))"

text \<open>
  A token with its line, its column and its index, and the parse tree of the three-line
  file \<open>pass\<close>, \<open>x\<close>, \<open>y\<close>, each followed by a newline: the tokens are \<open>pass\<close> at 0, \<open>x\<close> at 5
  and \<open>y\<close> at 7, the newlines at 4, 6 and 8, and the end of input at 9. The class has no
  visit method for the rule of \<open>pass\<close>.
\<close>

definition token_on :: "int \<Rightarrow> int \<Rightarrow> int \<Rightarrow> string \<Rightarrow> AntlrToken" where
  "token_on l c n s = \<lparr>token_line = l, charPositionInLine = c, startIndex = n,
                       stopIndex = n + int (length s) - 1, token_text = Some s\<rparr>"

definition pass_example :: ParseTree where
  "pass_example =
     File_inputContext
       \<lparr>start = token_on 1 0 0 ''pass'',
        stop = Some \<lparr>token_line = 4, charPositionInLine = 0, startIndex = 9, stopIndex = 8,
                     token_text = Some ''<EOF>''\<rparr>\<rparr>
       [StatementContext
          (Some (Simple_stmtContext
                   \<lparr>start = token_on 1 0 0 ''pass'', stop = Some (token_on 1 4 4 [CHR 0x0A])\<rparr>
                   [OtherContext [OtherContext [TerminalNode (token_on 1 0 0 ''pass'')]]]))
          None,
        StatementContext
          (Some (Simple_stmtContext
                   \<lparr>start = token_on 2 0 5 ''x'', stop = Some (token_on 2 1 6 [CHR 0x0A])\<rparr>
                   [OtherContext
                      [Expr_stmtContext
                         \<lparr>start = token_on 2 0 5 ''x'', stop = Some (token_on 2 0 5 ''x'')\<rparr>
                         (OtherContext [TerminalNode (token_on 2 0 5 ''x'')])]]))
          None,
        StatementContext
          (Some (Simple_stmtContext
                   \<lparr>start = token_on 3 0 7 ''y'', stop = Some (token_on 3 1 8 [CHR 0x0A])\<rparr>
                   [OtherContext
                      [Expr_stmtContext
                         \<lparr>start = token_on 3 0 7 ''y'', stop = Some (token_on 3 0 7 ''y'')\<rparr>
                         (OtherContext [TerminalNode (token_on 3 0 7 ''y'')])]]))
          None]"

subsection \<open>The documented parse tree of a declaration\<close>

text \<open>
  The parse tree of \<open>const x = 42;\<close> as the documentation gives it: the terminal \<open>const\<close>,
  the identifier \<open>x\<close>, the terminal \<open>=\<close>, the expression \<open>42\<close> and the terminal \<open>;\<close>. The
  blanks of the source are not in the tree.
\<close>

definition const_x_42 :: RuleContext where
  "const_x_42 =
     Rule ''VariableDeclarationContext''
       \<lparr>start = token_at 0 ''const'', stop = Some (token_at 12 '';'')\<rparr>
       [Terminal (token_at 0 ''const''),
        Rule ''IdentifierContext''
          \<lparr>start = token_at 6 ''x'', stop = Some (token_at 6 ''x'')\<rparr>
          [Terminal (token_at 6 ''x'')],
        Terminal (token_at 8 ''=''),
        Rule ''ExpressionContext''
          \<lparr>start = token_at 10 ''42'', stop = Some (token_at 10 ''42'')\<rparr>
          [Terminal (token_at 10 ''42'')],
        Terminal (token_at 12 '';'')]"

section \<open>Traversal order\<close>

lemma fold_traverse_children:
  assumes "\<And>child s. child \<in> set cs \<Longrightarrow> f child s = fold g (h child) s"
  shows "fold f cs s = fold g (concat (map h cs)) s"
  using assms by (induction cs arbitrary: s) simp_all

lemma traverse_fold: "traverse node callback s = fold callback (preorder node) s"
proof (induction node callback s rule: traverse.induct)
  case (1 node callback s)
  show ?case
  proof (cases "children node")
    case None
    then show ?thesis
      by (simp add: traverse.simps [of node] preorder.simps [of node])
  next
    case (Some cs)
    have "fold (\<lambda>child. traverse child callback) cs s1 =
          fold callback (concat (map preorder cs)) s1" for s1
      by (rule fold_traverse_children) (rule "1.IH" [OF refl Some])
    with Some show ?thesis
      by (simp add: traverse.simps [of node] preorder.simps [of node])
  qed
qed

lemma fold_collect:
  "fold (\<lambda>x acc. if P x then acc @ [x] else acc) xs acc = acc @ filter P xs"
  by (induction xs arbitrary: acc) simp_all

lemma fold_snoc: "fold (\<lambda>x acc. acc @ [x]) xs acc = acc @ xs"
  by (induction xs arbitrary: acc) simp_all

text \<open>
  C5. The nodes on which \<open>traverse\<close> calls its callback, in the order of the calls, are the
  pre-order enumeration of the tree; whatever the callback does, \<open>traverse\<close> is the fold of
  the callback over that enumeration; and \<open>findNodesByType\<close> returns the enumeration
  restricted to the nodes of the type asked for, in the same order.
\<close>

theorem traversal_order:
  "traverse t (\<lambda>node calls. calls @ [node]) [] = preorder t \<and>
   traverse t callback s = fold callback (preorder t) s \<and>
   findNodesByType t ty = filter (\<lambda>node. type node = ty) (preorder t)"
  unfolding findNodesByType_def
  by (simp only: traverse_fold fold_collect fold_snoc append_Nil simp_thms)

section \<open>Find-first\<close>

lemma upto_first_Nil: "upto_first p [] = []"
  by (simp add: upto_first_def)

lemma upto_first_Cons:
  "upto_first p (x # xs) = (if p x then [x] else x # upto_first p xs)"
  by (simp add: upto_first_def)

lemma upto_first_append:
  "upto_first p (xs @ ys) =
     (case find p xs of None \<Rightarrow> xs @ upto_first p ys | Some m \<Rightarrow> upto_first p xs)"
  by (induction xs) (simp_all add: upto_first_Cons upto_first_Nil split: option.splits)

lemma upto_first_no_match: "find p xs = None \<Longrightarrow> upto_first p xs = xs"
  by (induction xs) (simp_all add: upto_first_Cons upto_first_Nil split: if_splits)

lemma find_append:
  "find p (xs @ ys) = (case find p xs of None \<Rightarrow> find p ys | Some m \<Rightarrow> Some m)"
  by (induction xs) simp_all

lemma findFirst_observed:
  "findFirst root (observed p) calls =
     (find p (preorder root), calls @ upto_first p (preorder root))"
  "findFirst_loop cs (observed p) calls =
     (find p (concat (map preorder cs)), calls @ upto_first p (concat (map preorder cs)))"
proof (induction root "observed p" calls and cs "observed p" calls
       rule: findFirst_findFirst_loop.induct)
  case (1 root s)
  show ?case
  proof (cases "p root")
    case True
    then show ?thesis
      by (simp add: findFirst.simps [of root] preorder.simps [of root] observed_def
            upto_first_Cons)
  next
    case False
    show ?thesis
    proof (cases "children root")
      case None
      with False show ?thesis
        by (simp add: findFirst.simps [of root] preorder.simps [of root] observed_def
              upto_first_Cons upto_first_Nil)
    next
      case (Some cs)
      have obs: "(False, s @ [root]) = observed p root s"
        using False by (simp add: observed_def)
      from "1.hyps" [OF obs refl Some] False Some show ?thesis
        by (simp add: findFirst.simps [of root] preorder.simps [of root] observed_def
              upto_first_Cons)
    qed
  qed
next
  case (2 s)
  show ?case by (simp add: upto_first_Nil)
next
  case (3 child rest s)
  show ?case
  proof (cases "find p (preorder child)")
    case None
    with "3.hyps"(1)
    have first: "findFirst child (observed p) s = (None, s @ upto_first p (preorder child))"
      by simp
    from "3.hyps"(2) [OF first [symmetric] refl] first None show ?thesis
      by (simp add: find_append upto_first_append upto_first_no_match)
  next
    case (Some m)
    with "3.hyps"(1) show ?thesis
      by (simp add: find_append upto_first_append)
  qed
qed

text \<open>
  C6. \<open>findFirst\<close> returns the first node of the pre-order enumeration that satisfies the
  predicate, or nothing when there is none, and it short-circuits: the nodes it asks the
  predicate about are exactly the nodes of the enumeration before the first match,
  followed by the match. No node after the match, sibling or descendant, is looked at.
\<close>

theorem findFirst_short_circuit:
  "findFirst root (observed p) calls =
     (find p (preorder root), calls @ upto_first p (preorder root))"
  by (rule findFirst_observed)

section \<open>Filter\<close>

lemma map_the_Some: "map the (filter (\<lambda>r. r \<noteq> None) (map Some xs)) = xs"
  by (induction xs) simp_all

lemma filterNodes_always_true: "filterNodes t (\<lambda>_. True) = Some t"
proof (induction t "\<lambda>_ :: CstNode. True" rule: filterNodes.induct)
  case (1 node)
  show ?case
  proof (cases "children node")
    case None
    then show ?thesis by (simp add: filterNodes.simps [of node])
  next
    case (Some cs)
    have "filterNodes child (\<lambda>_. True) = Some child" if "child \<in> set cs" for child
      using "1.hyps" [OF _ Some that] by simp
    then have eq: "map (\<lambda>child. filterNodes child (\<lambda>_. True)) cs = map Some cs"
      by simp
    have kept: "map the (filter (\<lambda>child. child \<noteq> None)
        (map (\<lambda>child. filterNodes child (\<lambda>_. True)) cs)) = cs"
      unfolding eq by (rule map_the_Some)
    have "filterNodes node (\<lambda>_. True) =
        Some (CstNode (type node) (node_text node) (position node) (Some cs))"
      by (subst filterNodes.simps) (simp only: Some kept Let_def option.case simp_thms if_False)
    also have "CstNode (type node) (node_text node) (position node) (Some cs) = node"
      using Some by (cases node) simp
    finally show ?thesis .
  qed
qed

lemma all_pruned:
  "\<forall>c \<in> set cs. \<not> p c \<Longrightarrow>
   map the (filter (\<lambda>r. r \<noteq> None) (map (\<lambda>child. filterNodes child p) cs)) = []"
proof (induction cs)
  case Nil
  show ?case by simp
next
  case (Cons c cs)
  then show ?case by (simp add: filterNodes.simps [of c])
qed

text \<open>
  C7. Filtering with the predicate that is always true returns the tree itself;
  filtering with the predicate that is always false, and with any predicate the root
  fails, returns the absent marker \<open>null\<close>, not a node.
\<close>

theorem filter_identity:
  "filterNodes t (\<lambda>_. True) = Some t \<and>
   filterNodes t (\<lambda>_. False) = None \<and>
   (\<not> p t \<longrightarrow> filterNodes t p = None)"
  by (simp add: filterNodes_always_true filterNodes.simps [of t "\<lambda>_. False"]
        filterNodes.simps [of t p])

theorem filter_identity_witness:
  "\<not> (\<lambda>n. type n = ''Program'')
       (CstNode ''Identifier'' ''x'' \<lparr>startOffset = 6, endOffset = 7\<rparr> None) \<and>
   filterNodes (CstNode ''Identifier'' ''x'' \<lparr>startOffset = 6, endOffset = 7\<rparr> None)
     (\<lambda>n. type n = ''Program'') = None"
  using filter_identity [of "CstNode ''Identifier'' ''x'' \<lparr>startOffset = 6, endOffset = 7\<rparr> None"
      "\<lambda>n. type n = ''Program''"]
  by simp

text \<open>
  C10. When a node has a children array and passes the predicate, \<open>filterNodes\<close> returns a
  node with the same type, text and position, and with a children array: the field is
  still present, and it is the empty array when every child fails the predicate.
\<close>

theorem filterNodes_frame:
  assumes "children n = Some cs" and "p n"
  shows "\<exists>kept. filterNodes n p = Some (CstNode (type n) (node_text n) (position n) (Some kept)) \<and>
           ((\<forall>c \<in> set cs. \<not> p c) \<longrightarrow> kept = [])"
proof -
  let ?kept = "map the (filter (\<lambda>r. r \<noteq> None) (map (\<lambda>child. filterNodes child p) cs))"
  from assms have "filterNodes n p = Some (CstNode (type n) (node_text n) (position n) (Some ?kept))"
    by (simp add: filterNodes.simps [of n])
  moreover have "(\<forall>c \<in> set cs. \<not> p c) \<longrightarrow> ?kept = []"
    using all_pruned [of cs p] by blast
  ultimately show ?thesis by blast
qed

theorem filterNodes_frame_witness:
  "children (CstNode ''Program'' ''x;'' \<lparr>startOffset = 0, endOffset = 2\<rparr>
      (Some [CstNode ''Identifier'' ''x'' \<lparr>startOffset = 0, endOffset = 1\<rparr> None,
             CstNode ''Punctuator'' '';'' \<lparr>startOffset = 1, endOffset = 2\<rparr> None]))
    = Some [CstNode ''Identifier'' ''x'' \<lparr>startOffset = 0, endOffset = 1\<rparr> None,
            CstNode ''Punctuator'' '';'' \<lparr>startOffset = 1, endOffset = 2\<rparr> None] \<and>
   (\<lambda>n. type n = ''Program'')
     (CstNode ''Program'' ''x;'' \<lparr>startOffset = 0, endOffset = 2\<rparr>
      (Some [CstNode ''Identifier'' ''x'' \<lparr>startOffset = 0, endOffset = 1\<rparr> None,
             CstNode ''Punctuator'' '';'' \<lparr>startOffset = 1, endOffset = 2\<rparr> None])) \<and>
   \<not> (\<lambda>n. type n = ''Program'')
       (CstNode ''Identifier'' ''x'' \<lparr>startOffset = 0, endOffset = 1\<rparr> None) \<and>
   \<not> (\<lambda>n. type n = ''Program'')
       (CstNode ''Punctuator'' '';'' \<lparr>startOffset = 1, endOffset = 2\<rparr> None) \<and>
   filterNodes (CstNode ''Program'' ''x;'' \<lparr>startOffset = 0, endOffset = 2\<rparr>
      (Some [CstNode ''Identifier'' ''x'' \<lparr>startOffset = 0, endOffset = 1\<rparr> None,
             CstNode ''Punctuator'' '';'' \<lparr>startOffset = 1, endOffset = 2\<rparr> None]))
      (\<lambda>n. type n = ''Program'')
    = Some (CstNode ''Program'' ''x;'' \<lparr>startOffset = 0, endOffset = 2\<rparr> (Some []))"
  using filterNodes_frame [of
      "CstNode ''Program'' ''x;'' \<lparr>startOffset = 0, endOffset = 2\<rparr>
        (Some [CstNode ''Identifier'' ''x'' \<lparr>startOffset = 0, endOffset = 1\<rparr> None,
               CstNode ''Punctuator'' '';'' \<lparr>startOffset = 1, endOffset = 2\<rparr> None])"
      "[CstNode ''Identifier'' ''x'' \<lparr>startOffset = 0, endOffset = 1\<rparr> None,
        CstNode ''Punctuator'' '';'' \<lparr>startOffset = 1, endOffset = 2\<rparr> None]"
      "\<lambda>n. type n = ''Program''"]
  by simp

section \<open>Position derivation\<close>

text \<open>
  C8, as stated, fails at the end-of-input token, which ANTLR gives start index \<open>n\<close>, stop
  index \<open>n - 1\<close> and the text \<open><EOF>\<close>. The entry rule of the file \<open>x\<close> runs from \<open>x\<close> to the
  end of input: \<open>getLocation\<close> ends it at 1, not at the last token's start index plus its
  text length (6). For a rule that starts at the end of an empty input and has no stop
  token, \<open>getLocation\<close> returns the span from 0 to 0, which is empty.
\<close>

theorem getLocation_counterexample:
  "offset (loc_end (getLocation
      \<lparr>start = \<lparr>token_line = 1, charPositionInLine = 0, startIndex = 0, stopIndex = 0,
                 token_text = Some ''x''\<rparr>,
       stop = Some \<lparr>token_line = 1, charPositionInLine = 1, startIndex = 1, stopIndex = 0,
                      token_text = Some ''<EOF>''\<rparr>\<rparr>)) = 1 \<and>
   startIndex \<lparr>token_line = 1, charPositionInLine = 1, startIndex = 1, stopIndex = 0,
                token_text = Some ''<EOF>''\<rparr> +
   text_length \<lparr>token_line = 1, charPositionInLine = 1, startIndex = 1, stopIndex = 0,
                 token_text = Some ''<EOF>''\<rparr> = 6 \<and>
   offset (loc_start (getLocation
      \<lparr>start = \<lparr>token_line = 1, charPositionInLine = 0, startIndex = 0, stopIndex = - 1,
                 token_text = Some ''<EOF>''\<rparr>,
       stop = None\<rparr>)) = 0 \<and>
   offset (loc_end (getLocation
      \<lparr>start = \<lparr>token_line = 1, charPositionInLine = 0, startIndex = 0, stopIndex = - 1,
                 token_text = Some ''<EOF>''\<rparr>,
       stop = None\<rparr>)) = 0"
  by (simp add: getLocation_def stop_or_start_def text_length_def)

text \<open>
  C8, amended. The start offset is the start index of the rule's first token. The end
  offset is the stop index of the rule's last token plus one; it is the last token's start
  index plus its text length whenever that token's stop index is its start index plus its
  text length minus one. When the rule has no stop token the last token is the first
  token, and the span is that token's, from its start index to its stop index plus one:
  non-empty exactly when the token's start index is not beyond its stop index.
\<close>

theorem getLocation_offsets:
  "offset (loc_start (getLocation ctx)) = startIndex (start ctx) \<and>
   offset (loc_end (getLocation ctx)) = stopIndex (stop_or_start ctx) + 1 \<and>
   (stopIndex (stop_or_start ctx) =
      startIndex (stop_or_start ctx) + text_length (stop_or_start ctx) - 1 \<longrightarrow>
    offset (loc_end (getLocation ctx)) =
      startIndex (stop_or_start ctx) + text_length (stop_or_start ctx)) \<and>
   (stop ctx = None \<longrightarrow>
      stop_or_start ctx = start ctx \<and>
      offset (loc_end (getLocation ctx)) = stopIndex (start ctx) + 1 \<and>
      (offset (loc_start (getLocation ctx)) < offset (loc_end (getLocation ctx))
         \<longleftrightarrow> startIndex (start ctx) \<le> stopIndex (start ctx)))"
proof -
  have "stop ctx = None \<Longrightarrow> stop_or_start ctx = start ctx"
    by (simp add: stop_or_start_def)
  then show ?thesis
    by (auto simp add: getLocation_def Let_def)
qed

theorem getLocation_offsets_witness:
  "stop \<lparr>start = token_at 6 ''greeting'', stop = None\<rparr> = None \<and>
   stopIndex (token_at 6 ''greeting'') =
     startIndex (token_at 6 ''greeting'') + text_length (token_at 6 ''greeting'') - 1 \<and>
   offset (loc_start (getLocation \<lparr>start = token_at 6 ''greeting'', stop = None\<rparr>)) = 6 \<and>
   offset (loc_end (getLocation \<lparr>start = token_at 6 ''greeting'', stop = None\<rparr>)) = 14"
  using getLocation_offsets [of "\<lparr>start = token_at 6 ''greeting'', stop = None\<rparr>"]
  by (simp add: token_at_def text_length_def stop_or_start_def)

section \<open>Spans of the nodes the tutorial visitor builds\<close>

lemma visitChildren_last:
  "fold (\<lambda>c result. visit c) cs r = (if cs = [] then r else visit (last cs))"
  by (induction cs arbitrary: r) simp_all

lemma located_from_mono:
  "set ctxs \<subseteq> set ctxs' \<Longrightarrow> located_from ctxs n \<Longrightarrow> located_from ctxs' n"
  by (auto simp: located_from_def split: option.splits)

lemma visit_located:
  "visit t = Some ast \<Longrightarrow> n \<in> set (ast_nodes ast) \<Longrightarrow> located_from (rule_contexts t) n"
proof (induction t arbitrary: ast n rule: visit.induct)
  case (1 ctx statement)
  from "1.prems"(1) have ast: "ast = Program (map the (filter (\<lambda>r. r \<noteq> None) (map visit statement))) (getLocation ctx)"
    by simp
  from "1.prems"(2) consider "n = ast"
    | s where "s \<in> set statement" "visit s \<noteq> None" "n \<in> set (ast_nodes (the (visit s)))"
    unfolding ast by auto
  then show ?case
  proof cases
    case 1
    then show ?thesis by (simp add: ast located_from_def)
  next
    case 2
    then obtain a where a: "visit s = Some a" by auto
    with 2 have "located_from (rule_contexts s) n"
      using "1.IH" [of s a n] by simp
    then show ?thesis
      by (rule located_from_mono [rotated]) (use 2 in auto)
  qed
next
  case (2 simple_stmt compound_stmt)
  show ?case
  proof (cases simple_stmt)
    case (Some c)
    with "2.prems" "2.IH"(2) [OF Some, of ast n] show ?thesis
      by (auto elim: located_from_mono [rotated])
  next
    case None
    show ?thesis
    proof (cases compound_stmt)
      case None
      with \<open>simple_stmt = None\<close> "2.prems" show ?thesis by simp
    next
      case (Some c)
      with \<open>simple_stmt = None\<close> "2.prems" "2.IH"(1) [OF \<open>simple_stmt = None\<close> Some, of ast n]
      show ?thesis by (auto elim: located_from_mono [rotated])
    qed
  qed
next
  case (3 ctx small_stmts)
  show ?case
  proof (cases "\<exists>single. small_stmts = [single]")
    case True
    then obtain single where single: "small_stmts = [single]" by blast
    with "3.prems" "3.IH"(2) [OF single refl, of ast n] show ?thesis
      by (auto elim: located_from_mono [rotated])
  next
    case False
    then have ast: "ast = BlockStatement (map visit small_stmts) (getLocation ctx)"
      using "3.prems"(1) by (auto split: list.splits)
    from "3.prems"(2) consider "n = ast"
      | s a where "s \<in> set small_stmts" "visit s = Some a" "n \<in> set (ast_nodes a)"
      unfolding ast by (auto split: option.splits) metis
    then show ?thesis
    proof cases
      case 1
      then show ?thesis by (simp add: ast located_from_def)
    next
      case 2
      have "located_from (rule_contexts s) n"
      proof (cases small_stmts)
        case Nil
        with 2 show ?thesis by simp
      next
        case (Cons x xs)
        show ?thesis
        proof (cases xs)
          case Nil
          with Cons False show ?thesis by simp
        next
          case (Cons y ys)
          from "3.IH"(3) [OF \<open>small_stmts = x # xs\<close> Cons 2(1) 2(2) 2(3)] show ?thesis .
        qed
      qed
      then show ?thesis
        by (rule located_from_mono [rotated]) (use 2 in auto)
    qed
  qed
next
  case (4 ctx testlist_star_expr)
  from "4.prems"(1) have ast: "ast = ExpressionStatement (visit testlist_star_expr) (getLocation ctx)"
    by simp
  from "4.prems"(2) consider "n = ast"
    | a where "visit testlist_star_expr = Some a" "n \<in> set (ast_nodes a)"
    unfolding ast by (auto split: option.splits) metis
  then show ?case
  proof cases
    case 1
    then show ?thesis by (simp add: ast located_from_def)
  next
    case 2
    from "4.IH" [OF 2] show ?thesis
      by (rule located_from_mono [rotated]) auto
  qed
next
  case (5 cs)
  show ?case
  proof (cases "cs = []")
    case True
    with "5.prems" show ?thesis by (simp add: located_from_def)
  next
    case False
    with "5.prems"(1) have "visit (last cs) = Some ast"
      by (simp add: visitChildren_last)
    from "5.IH" [OF _ this "5.prems"(2)] False have "located_from (rule_contexts (last cs)) n"
      by simp
    then show ?thesis
      by (rule located_from_mono [rotated]) (use False last_in_set in auto)
  qed
next
  case (6 t)
  then show ?case by (simp add: located_from_def)
qed


lemma result_span_subset: "set (result_span t) \<subseteq> set (spans_of t)"
proof
  fix x assume "x \<in> set (result_span t)"
  then obtain a l where a: "visit t = Some a" and l: "ast_loc a = Some l" and x: "x = loc_span l"
    by (cases "visit t"; cases "ast_loc (the (visit t))")
       (auto simp: result_span_def node_span_def)
  have "a \<in> set (ast_nodes a)" by (cases a) simp_all
  from visit_located [OF a this] l obtain ctx where "ctx \<in> set (rule_contexts t)" "l = getLocation ctx"
    by (auto simp: located_from_def)
  with x show "x \<in> set (spans_of t)" by (auto simp: spans_of_def)
qed

lemma child_spans_filtered:
  "concat (map node_span (map the (filter (\<lambda>r. r \<noteq> None) (map visit ts)))) =
   concat (map result_span ts)"
  by (induction ts) (auto simp: result_span_def)

lemma children_inside:
  assumes "list_all (\<lambda>s. list_all (inside p) (spans_of s)) ts"
  shows "list_all (inside p) (concat (map result_span ts))"
  using assms result_span_subset by (fastforce simp: list_all_iff)

lemma children_ordered:
  assumes "sorted_wrt all_before ts"
  shows "sorted_wrt before (concat (map result_span ts))"
  using assms
proof (induction ts)
  case Nil
  show ?case by simp
next
  case (Cons t ts)
  have one: "sorted_wrt before (result_span t)"
    by (simp add: result_span_def node_span_def split: option.splits)
  have cross: "before x y" if "x \<in> set (result_span t)" "u \<in> set ts" "y \<in> set (result_span u)" for x y u
  proof -
    from Cons.prems that(2) have "all_before t u" by simp
    moreover from that(1) result_span_subset have "x \<in> set (spans_of t)" by blast
    moreover from that(3) result_span_subset have "y \<in> set (spans_of u)" by blast
    ultimately show ?thesis by (simp add: all_before_def list_all_iff)
  qed
  from Cons one cross show ?case
    by (auto simp: sorted_wrt_append)
qed


lemma visit_spans_agree:
  "nested t \<Longrightarrow> visit t = Some ast \<Longrightarrow> n \<in> set (ast_nodes ast) \<Longrightarrow> spans_agree n"
proof (induction t arbitrary: ast n rule: visit.induct)
  case (1 ctx statement)
  let ?body = "map the (filter (\<lambda>r. r \<noteq> None) (map visit statement))"
  from "1.prems"(2) have ast: "ast = Program ?body (getLocation ctx)"
    by simp
  from "1.prems"(3) consider "n = ast"
    | s where "s \<in> set statement" "visit s \<noteq> None" "n \<in> set (ast_nodes (the (visit s)))"
    unfolding ast by auto
  then show ?case
  proof cases
    case 1
    have "child_spans n = concat (map node_span ?body)"
      by (simp only: 1 ast child_spans_def ast_children.simps)
    then have "child_spans n = concat (map result_span statement)"
      by (simp only: child_spans_filtered)
    moreover from "1.prems"(1)
    have "list_all (inside (loc_span (getLocation ctx))) (concat (map result_span statement))"
      by (intro children_inside) simp
    moreover from "1.prems"(1) have "sorted_wrt before (concat (map result_span statement))"
      by (intro children_ordered) simp
    ultimately show ?thesis
      by (simp add: spans_agree_def 1 ast)
  next
    case 2
    then obtain a where a: "visit s = Some a" by auto
    from "1.prems"(1) 2(1) have "nested s" by (simp add: list_all_iff)
    from "1.IH" [OF 2(1) this a] 2(3) a show ?thesis by simp
  qed
next
  case (2 simple_stmt compound_stmt)
  show ?case
  proof (cases simple_stmt)
    case (Some c)
    with "2.prems" "2.IH"(2) [OF Some, of ast n] show ?thesis by simp
  next
    case None
    show ?thesis
    proof (cases compound_stmt)
      case None
      with \<open>simple_stmt = None\<close> "2.prems" show ?thesis by simp
    next
      case (Some c)
      with \<open>simple_stmt = None\<close> "2.prems" "2.IH"(1) [OF \<open>simple_stmt = None\<close> Some, of ast n]
      show ?thesis by simp
    qed
  qed
next
  case (3 ctx small_stmts)
  show ?case
  proof (cases "\<exists>single. small_stmts = [single]")
    case True
    then obtain single where single: "small_stmts = [single]" by blast
    with "3.prems" "3.IH"(2) [OF single refl, of ast n] show ?thesis by simp
  next
    case False
    then have ast: "ast = BlockStatement (map visit small_stmts) (getLocation ctx)"
      using "3.prems"(2) by (auto split: list.splits)
    from "3.prems"(3) consider "n = ast"
      | s a where "s \<in> set small_stmts" "visit s = Some a" "n \<in> set (ast_nodes a)"
      unfolding ast by (auto split: option.splits) metis
    then show ?thesis
    proof cases
      case 1
      have "child_spans n =
          concat (map node_span (map the (filter (\<lambda>r. r \<noteq> None) (map visit small_stmts))))"
        by (simp only: 1 ast child_spans_def ast_children.simps)
      then have "child_spans n = concat (map result_span small_stmts)"
        by (simp only: child_spans_filtered)
      moreover from "3.prems"(1)
      have "list_all (inside (loc_span (getLocation ctx))) (concat (map result_span small_stmts))"
        by (intro children_inside) simp
      moreover from "3.prems"(1) have "sorted_wrt before (concat (map result_span small_stmts))"
        by (intro children_ordered) simp
      ultimately show ?thesis
        by (simp add: spans_agree_def 1 ast)
    next
      case 2
      from "3.prems"(1) 2(1) have n: "nested s" by (simp add: list_all_iff)
      show ?thesis
      proof (cases small_stmts)
        case Nil
        with 2 show ?thesis by simp
      next
        case (Cons x xs)
        show ?thesis
        proof (cases xs)
          case Nil
          with Cons False show ?thesis by simp
        next
          case (Cons y ys)
          from "3.IH"(3) [OF \<open>small_stmts = x # xs\<close> Cons 2(1) n 2(2) 2(3)] show ?thesis .
        qed
      qed
    qed
  qed
next
  case (4 ctx testlist_star_expr)
  from "4.prems"(2) have ast: "ast = ExpressionStatement (visit testlist_star_expr) (getLocation ctx)"
    by simp
  from "4.prems"(3) consider "n = ast"
    | a where "visit testlist_star_expr = Some a" "n \<in> set (ast_nodes a)"
    unfolding ast by (auto split: option.splits) metis
  then show ?case
  proof cases
    case 1
    have spans: "child_spans n = result_span testlist_star_expr"
      by (simp add: 1 ast child_spans_def result_span_def split: option.splits)
    from "4.prems"(1) result_span_subset [of testlist_star_expr]
    have "list_all (inside (loc_span (getLocation ctx))) (result_span testlist_star_expr)"
      by (auto simp: list_all_iff)
    moreover have "sorted_wrt before (result_span testlist_star_expr)"
      by (simp add: result_span_def node_span_def split: option.splits)
    ultimately show ?thesis
      using spans by (simp add: spans_agree_def 1 ast)
  next
    case 2
    from "4.prems"(1) have "nested testlist_star_expr" by simp
    from "4.IH" [OF this 2] show ?thesis .
  qed
next
  case (5 cs)
  show ?case
  proof (cases "cs = []")
    case True
    with "5.prems" show ?thesis by (simp add: spans_agree_def)
  next
    case False
    with "5.prems"(2) have v: "visit (last cs) = Some ast"
      by (simp add: visitChildren_last)
    from False "5.prems"(1) have "nested (last cs)"
      by (simp add: list_all_iff)
    from "5.IH" [OF _ this v "5.prems"(3)] False show ?thesis by simp
  qed
next
  case (6 t)
  then show ?case by (simp add: spans_agree_def)
qed

text \<open>
  C3, as stated, fails on the file \<open>pass\<close>, \<open>x\<close>, \<open>y\<close>. The \<open>Program\<close> node runs from 0 to
  9, from the first token of the file to the end of input. Its first child, the node of
  \<open>pass\<close>, is the default \<open>Unknown\<close> node and has no position at all; the first child
  with a position starts at 5, not at 0, and the last child ends at 8, not at 9.
\<close>

theorem span_coverage_counterexample:
  "visit pass_example =
     Some (Program
       [Unknown,
        ExpressionStatement (Some Unknown)
          \<lparr>loc_start = \<lparr>line = 2, column = 0, offset = 5\<rparr>,
           loc_end = \<lparr>line = 2, column = 1, offset = 6\<rparr>\<rparr>,
        ExpressionStatement (Some Unknown)
          \<lparr>loc_start = \<lparr>line = 3, column = 0, offset = 7\<rparr>,
           loc_end = \<lparr>line = 3, column = 1, offset = 8\<rparr>\<rparr>]
       \<lparr>loc_start = \<lparr>line = 1, column = 0, offset = 0\<rparr>,
        loc_end = \<lparr>line = 4, column = 5, offset = 9\<rparr>\<rparr>) \<and>
   ast_loc Unknown = None \<and>
   child_spans (Program
       [Unknown,
        ExpressionStatement (Some Unknown)
          \<lparr>loc_start = \<lparr>line = 2, column = 0, offset = 5\<rparr>,
           loc_end = \<lparr>line = 2, column = 1, offset = 6\<rparr>\<rparr>,
        ExpressionStatement (Some Unknown)
          \<lparr>loc_start = \<lparr>line = 3, column = 0, offset = 7\<rparr>,
           loc_end = \<lparr>line = 3, column = 1, offset = 8\<rparr>\<rparr>]
       \<lparr>loc_start = \<lparr>line = 1, column = 0, offset = 0\<rparr>,
        loc_end = \<lparr>line = 4, column = 5, offset = 9\<rparr>\<rparr>) = [(5, 6), (7, 8)] \<and>
   loc_span \<lparr>loc_start = \<lparr>line = 1, column = 0, offset = 0\<rparr>,
        loc_end = \<lparr>line = 4, column = 5, offset = 9\<rparr>\<rparr> = (0, 9)"
  by (simp add: pass_example_def getLocation_def stop_or_start_def token_on_def text_length_def
        child_spans_def node_span_def loc_span_def)

text \<open>
  C3, amended. In a tree produced from a parse tree that is nested and ordered, for
  every node with a position and for its children that have a position: the node's start
  offset is at most the start offset of each such child and its end offset is at least
  their end offsets, and these children are pairwise non-overlapping and in the order of
  their positions: each ends before the next starts.
\<close>

theorem span_containment:
  assumes "nested t" and "visit t = Some ast" and "n \<in> set (ast_nodes ast)"
    and "ast_loc n = Some l"
  shows "list_all (inside (loc_span l)) (child_spans n) \<and> sorted_wrt before (child_spans n)"
  using visit_spans_agree [OF assms(1,2,3)] assms(4)
  by (simp add: spans_agree_def)

theorem span_containment_witness:
  "nested pass_example \<and>
   visit pass_example =
     Some (Program
       [Unknown,
        ExpressionStatement (Some Unknown)
          \<lparr>loc_start = \<lparr>line = 2, column = 0, offset = 5\<rparr>,
           loc_end = \<lparr>line = 2, column = 1, offset = 6\<rparr>\<rparr>,
        ExpressionStatement (Some Unknown)
          \<lparr>loc_start = \<lparr>line = 3, column = 0, offset = 7\<rparr>,
           loc_end = \<lparr>line = 3, column = 1, offset = 8\<rparr>\<rparr>]
       \<lparr>loc_start = \<lparr>line = 1, column = 0, offset = 0\<rparr>,
        loc_end = \<lparr>line = 4, column = 5, offset = 9\<rparr>\<rparr>) \<and>
   Program
       [Unknown,
        ExpressionStatement (Some Unknown)
          \<lparr>loc_start = \<lparr>line = 2, column = 0, offset = 5\<rparr>,
           loc_end = \<lparr>line = 2, column = 1, offset = 6\<rparr>\<rparr>,
        ExpressionStatement (Some Unknown)
          \<lparr>loc_start = \<lparr>line = 3, column = 0, offset = 7\<rparr>,
           loc_end = \<lparr>line = 3, column = 1, offset = 8\<rparr>\<rparr>]
       \<lparr>loc_start = \<lparr>line = 1, column = 0, offset = 0\<rparr>,
        loc_end = \<lparr>line = 4, column = 5, offset = 9\<rparr>\<rparr>
     \<in> set (ast_nodes (Program
       [Unknown,
        ExpressionStatement (Some Unknown)
          \<lparr>loc_start = \<lparr>line = 2, column = 0, offset = 5\<rparr>,
           loc_end = \<lparr>line = 2, column = 1, offset = 6\<rparr>\<rparr>,
        ExpressionStatement (Some Unknown)
          \<lparr>loc_start = \<lparr>line = 3, column = 0, offset = 7\<rparr>,
           loc_end = \<lparr>line = 3, column = 1, offset = 8\<rparr>\<rparr>]
       \<lparr>loc_start = \<lparr>line = 1, column = 0, offset = 0\<rparr>,
        loc_end = \<lparr>line = 4, column = 5, offset = 9\<rparr>\<rparr>)) \<and>
   ast_loc (Program
       [Unknown,
        ExpressionStatement (Some Unknown)
          \<lparr>loc_start = \<lparr>line = 2, column = 0, offset = 5\<rparr>,
           loc_end = \<lparr>line = 2, column = 1, offset = 6\<rparr>\<rparr>,
        ExpressionStatement (Some Unknown)
          \<lparr>loc_start = \<lparr>line = 3, column = 0, offset = 7\<rparr>,
           loc_end = \<lparr>line = 3, column = 1, offset = 8\<rparr>\<rparr>]
       \<lparr>loc_start = \<lparr>line = 1, column = 0, offset = 0\<rparr>,
        loc_end = \<lparr>line = 4, column = 5, offset = 9\<rparr>\<rparr>) =
     Some \<lparr>loc_start = \<lparr>line = 1, column = 0, offset = 0\<rparr>,
        loc_end = \<lparr>line = 4, column = 5, offset = 9\<rparr>\<rparr> \<and>
   list_all (inside (0, 9)) [(5, 6), (7, 8)] \<and>
   sorted_wrt before [(5, 6), (7, 8)]"
proof -
  have wf: "nested pass_example"
    by (simp add: pass_example_def spans_of_def all_before_def inside_def before_def loc_span_def
          getLocation_def stop_or_start_def token_on_def text_length_def)
  have tree: "visit pass_example =
     Some (Program
       [Unknown,
        ExpressionStatement (Some Unknown)
          \<lparr>loc_start = \<lparr>line = 2, column = 0, offset = 5\<rparr>,
           loc_end = \<lparr>line = 2, column = 1, offset = 6\<rparr>\<rparr>,
        ExpressionStatement (Some Unknown)
          \<lparr>loc_start = \<lparr>line = 3, column = 0, offset = 7\<rparr>,
           loc_end = \<lparr>line = 3, column = 1, offset = 8\<rparr>\<rparr>]
       \<lparr>loc_start = \<lparr>line = 1, column = 0, offset = 0\<rparr>,
        loc_end = \<lparr>line = 4, column = 5, offset = 9\<rparr>\<rparr>)"
    by (simp add: pass_example_def getLocation_def stop_or_start_def token_on_def text_length_def)
  have node: "Program
       [Unknown,
        ExpressionStatement (Some Unknown)
          \<lparr>loc_start = \<lparr>line = 2, column = 0, offset = 5\<rparr>,
           loc_end = \<lparr>line = 2, column = 1, offset = 6\<rparr>\<rparr>,
        ExpressionStatement (Some Unknown)
          \<lparr>loc_start = \<lparr>line = 3, column = 0, offset = 7\<rparr>,
           loc_end = \<lparr>line = 3, column = 1, offset = 8\<rparr>\<rparr>]
       \<lparr>loc_start = \<lparr>line = 1, column = 0, offset = 0\<rparr>,
        loc_end = \<lparr>line = 4, column = 5, offset = 9\<rparr>\<rparr>
     \<in> set (ast_nodes (Program
       [Unknown,
        ExpressionStatement (Some Unknown)
          \<lparr>loc_start = \<lparr>line = 2, column = 0, offset = 5\<rparr>,
           loc_end = \<lparr>line = 2, column = 1, offset = 6\<rparr>\<rparr>,
        ExpressionStatement (Some Unknown)
          \<lparr>loc_start = \<lparr>line = 3, column = 0, offset = 7\<rparr>,
           loc_end = \<lparr>line = 3, column = 1, offset = 8\<rparr>\<rparr>]
       \<lparr>loc_start = \<lparr>line = 1, column = 0, offset = 0\<rparr>,
        loc_end = \<lparr>line = 4, column = 5, offset = 9\<rparr>\<rparr>))"
    by simp
  have loc: "ast_loc (Program
       [Unknown,
        ExpressionStatement (Some Unknown)
          \<lparr>loc_start = \<lparr>line = 2, column = 0, offset = 5\<rparr>,
           loc_end = \<lparr>line = 2, column = 1, offset = 6\<rparr>\<rparr>,
        ExpressionStatement (Some Unknown)
          \<lparr>loc_start = \<lparr>line = 3, column = 0, offset = 7\<rparr>,
           loc_end = \<lparr>line = 3, column = 1, offset = 8\<rparr>\<rparr>]
       \<lparr>loc_start = \<lparr>line = 1, column = 0, offset = 0\<rparr>,
        loc_end = \<lparr>line = 4, column = 5, offset = 9\<rparr>\<rparr>) =
     Some \<lparr>loc_start = \<lparr>line = 1, column = 0, offset = 0\<rparr>,
        loc_end = \<lparr>line = 4, column = 5, offset = 9\<rparr>\<rparr>"
    by simp
  have spans: "child_spans (Program
       [Unknown,
        ExpressionStatement (Some Unknown)
          \<lparr>loc_start = \<lparr>line = 2, column = 0, offset = 5\<rparr>,
           loc_end = \<lparr>line = 2, column = 1, offset = 6\<rparr>\<rparr>,
        ExpressionStatement (Some Unknown)
          \<lparr>loc_start = \<lparr>line = 3, column = 0, offset = 7\<rparr>,
           loc_end = \<lparr>line = 3, column = 1, offset = 8\<rparr>\<rparr>]
       \<lparr>loc_start = \<lparr>line = 1, column = 0, offset = 0\<rparr>,
        loc_end = \<lparr>line = 4, column = 5, offset = 9\<rparr>\<rparr>) = [(5, 6), (7, 8)]"
    by (simp add: child_spans_def node_span_def loc_span_def)
  have span: "loc_span \<lparr>loc_start = \<lparr>line = 1, column = 0, offset = 0\<rparr>,
        loc_end = \<lparr>line = 4, column = 5, offset = 9\<rparr>\<rparr> = (0, 9)"
    by (simp add: loc_span_def)
  from span_containment [OF wf tree node loc] wf tree node loc show ?thesis
    unfolding spans span by blast
qed

section \<open>The entry point of the tutorial parser\<close>



section \<open>Round trip of positions\<close>

lemma substring_sublist: "sublist (substring s a b) s"
proof -
  have "sublist (take n (drop m s)) s" for n m
    by (meson sublist_drop sublist_order.order_trans sublist_take)
  then show ?thesis
    by (simp add: substring_def Let_def)
qed

lemma const_x_42_text: "ctx_text const_x_42 = ''constx=42;''"
  by (simp add: const_x_42_def token_at_def)

lemma not_in_source: "\<not> sublist ''constx=42;'' ''const x = 42;''"
  by (simp add: sublist_Cons_right prefix_Cons)

text \<open>
  C2 fails on the documented visitor at \<open>const x = 42;\<close>. The text of the
  \<open>VariableDeclaration\<close> node is \<open>ctx.text\<close>, the texts of the tokens of the declaration
  without the blanks between them. It is no substring of the source, so whatever position
  \<open>getPosition\<close> gives the node, and whatever its children are, the substring of the
  source at the node's position is not the node's text.
\<close>

theorem round_trip_fails:
  "node_text (visitVariableDeclaration getPosition child_nodes const_x_42) = ''constx=42;'' \<and>
   getSourceText (visitVariableDeclaration getPosition child_nodes const_x_42) ''const x = 42;''
     \<noteq> node_text (visitVariableDeclaration getPosition child_nodes const_x_42)"
proof -
  have t: "node_text (visitVariableDeclaration getPosition child_nodes const_x_42) = ''constx=42;''"
    by (simp add: visitVariableDeclaration_def const_x_42_text)
  have "sublist (getSourceText (visitVariableDeclaration getPosition child_nodes const_x_42)
      ''const x = 42;'') ''const x = 42;''"
    unfolding getSourceText_def by (rule substring_sublist)
  with not_in_source t show ?thesis by metis
qed

end
